theory Spec2Isabelle
  imports Complex_Main "HOL-Library.AList" "HOL-Library.Multiset"
    "HOL-Library.Product_Lexorder" "HOL-Library.List_Lexorder" "HOL-Library.Char_ord"
begin

text \<open>
  A model of \<open>src/main.py\<close>: the aggregation of commit records into a date-by-hour grid
  (\<open>generate_heatmap\<close>), the five-level colour scale, and what the two terminal renderers
  and the HTML renderer emit. The definitions come first, the properties after them.
\<close>

section \<open>Data model\<close>

text \<open>
  A commit record is the triple \<open>(date_only, hour, repo_name)\<close> that \<open>get_git_commits\<close>
  appends. \<open>date_only\<close> is a naive \<open>datetime\<close> with the time of day zeroed, so it is
  determined by year, month and day, and Python orders such values chronologically, i.e.
  lexicographically on (year, month, day): the order of \<open>HOL-Library.Product_Lexorder\<close>.
  Strings are byte strings (UTF-8), ordered lexicographically.
\<close>

type_synonym date = "nat \<times> nat \<times> nat"

definition year :: "date \<Rightarrow> nat" where
  "year d = fst d"

definition month :: "date \<Rightarrow> nat" where
  "month d = fst (snd d)"

definition day :: "date \<Rightarrow> nat" where
  "day d = snd (snd d)"

type_synonym cell = "date \<times> nat"

type_synonym commit = "date \<times> nat \<times> string"

text \<open>
  A Python \<open>dict\<close> is an association list in insertion order with pairwise distinct keys:
  \<open>map_of\<close> is the lookup, \<open>AList.update\<close> the assignment \<open>d[k] = v\<close> (an existing key
  keeps its position, a new key goes to the end), \<open>map snd\<close> is \<open>d.values()\<close>.
\<close>

type_synonym ('k, 'v) dict = "('k \<times> 'v) list"

definition dict_get :: "('k, 'v) dict \<Rightarrow> 'k \<Rightarrow> 'v \<Rightarrow> 'v" where
  "dict_get d k dflt = (case map_of d k of None \<Rightarrow> dflt | Some v \<Rightarrow> v)"

text \<open>\<open>d[k] += 1\<close> on a \<open>defaultdict(int)\<close>: a missing key reads as 0 and is inserted.\<close>

definition incr :: "'k \<Rightarrow> ('k, int) dict \<Rightarrow> ('k, int) dict" where
  "incr k d = AList.update k (dict_get d k 0 + 1) d"

text \<open>
  \<open>d[k][r] += 1\<close> on a \<open>defaultdict(lambda: defaultdict(int))\<close>: a missing outer key reads
  as a fresh empty inner dict, which is inserted and then incremented in place.
\<close>

definition incr2 :: "'k \<Rightarrow> 'r \<Rightarrow> ('k, ('r, int) dict) dict \<Rightarrow> ('k, ('r, int) dict) dict" where
  "incr2 k r d = AList.update k (incr r (dict_get d k [])) d"

type_synonym aggregate =
  "(cell, int) dict \<times> (cell, (string, int) dict) dict \<times> (string, int) dict"

section \<open>Grid aggregation: \<open>generate_heatmap\<close>\<close>

text \<open>The body of the \<open>for date, hour, repo_name in commits\<close> loop, on the three dicts.\<close>

fun generate_heatmap_loop :: "commit list \<Rightarrow> aggregate \<Rightarrow> aggregate" where
  "generate_heatmap_loop [] s = s"
| "generate_heatmap_loop ((date, hour, repo_name) # commits) (heatmap, repo_heatmap, repo_stats) =
     generate_heatmap_loop commits
       (incr (date, hour) heatmap,
        incr2 (date, hour) repo_name repo_heatmap,
        incr repo_name repo_stats)"

definition generate_heatmap :: "commit list \<Rightarrow> aggregate" where
  "generate_heatmap commits = generate_heatmap_loop commits ([], [], [])"

text \<open>\<open>sum(d.values())\<close>.\<close>

definition sum_values :: "('k, int) dict \<Rightarrow> int" where
  "sum_values d = sum_list (map snd d)"

definition heatmap_of :: "aggregate \<Rightarrow> (cell, int) dict" where
  "heatmap_of agg = fst agg"

definition repo_heatmap_of :: "aggregate \<Rightarrow> (cell, (string, int) dict) dict" where
  "repo_heatmap_of agg = fst (snd agg)"

definition repo_stats_of :: "aggregate \<Rightarrow> (string, int) dict" where
  "repo_stats_of agg = snd (snd agg)"

definition cell_of :: "commit \<Rightarrow> cell" where
  "cell_of c = (fst c, fst (snd c))"

definition repo_of :: "commit \<Rightarrow> string" where
  "repo_of c = snd (snd c)"

text \<open>
  Two dicts are equal in Python when they have the same keys with equal values, whatever
  the insertion order: equality of \<open>map_of\<close>. For the nested \<open>repo_heatmap\<close> the values
  are dicts again, compared the same way.
\<close>

definition as_map2 :: "('k, ('r, 'v) dict) dict \<Rightarrow> 'k \<rightharpoonup> ('r \<rightharpoonup> 'v)" where
  "as_map2 d k = map_option map_of (map_of d k)"

text \<open>
  The mappings an aggregate denotes, as functions of the multiset of records: every key
  that occurs is mapped to its number of occurrences.
\<close>

definition cnt_map :: "'k multiset \<Rightarrow> 'k \<rightharpoonup> int" where
  "cnt_map M k = (if k \<in># M then Some (int (count M k)) else None)"

definition cnt_map2 :: "commit multiset \<Rightarrow> cell \<rightharpoonup> (string \<rightharpoonup> int)" where
  "cnt_map2 M k = (if k \<in># image_mset cell_of M
     then Some (cnt_map (image_mset repo_of (filter_mset (\<lambda>c. cell_of c = k) M))) else None)"

definition cells_agree :: "(cell, int) dict \<Rightarrow> (cell, (string, int) dict) dict \<Rightarrow> bool" where
  "cells_agree h rh \<longleftrightarrow> (\<forall>k. map_of h k = map_option sum_values (map_of rh k))"

definition inner_distinct :: "('k, ('r, 'v) dict) dict \<Rightarrow> bool" where
  "inner_distinct d \<longleftrightarrow> (\<forall>k inner. map_of d k = Some inner \<longrightarrow> distinct (map fst inner))"

subsection \<open>Field-wise sum of two aggregates\<close>

text \<open>
  The source aggregates one concatenated list and has no merge operation. The spec's
  field-wise (per-key) sum of two partial aggregates is written here from its words: every
  key of the second dict is added into the first, a key missing on one side counting as
  zero (as an empty inner dict, for the nested one).
\<close>

definition merge_with ::
  "('v \<Rightarrow> 'v \<Rightarrow> 'v) \<Rightarrow> 'v \<Rightarrow> ('k, 'v) dict \<Rightarrow> ('k, 'v) dict \<Rightarrow> ('k, 'v) dict" where
  "merge_with f z a b = fold (\<lambda>(k, v) acc. AList.update k (f (dict_get acc k z) v) acc) b a"

definition merge_counts :: "('k, int) dict \<Rightarrow> ('k, int) dict \<Rightarrow> ('k, int) dict" where
  "merge_counts a b = merge_with (+) 0 a b"

definition merge_nested ::
  "('k, ('r, int) dict) dict \<Rightarrow> ('k, ('r, int) dict) dict \<Rightarrow> ('k, ('r, int) dict) dict" where
  "merge_nested a b = merge_with merge_counts [] a b"

fun merge_aggregates :: "aggregate \<Rightarrow> aggregate \<Rightarrow> aggregate" where
  "merge_aggregates (h1, rh1, rs1) (h2, rh2, rs2) =
     (merge_counts h1 h2, merge_nested rh1 rh2, merge_counts rs1 rs2)"

text \<open>The spec's end-to-end example batch.\<close>

definition example_commits :: "commit list" where
  "example_commits =
     [((2024, 1, 1), 9, ''repoA''), ((2024, 1, 1), 9, ''repoA''),
      ((2024, 1, 1), 14, ''repoB''), ((2024, 1, 2), 9, ''repoA'')]"

definition example_heatmap :: "(cell, int) dict" where
  "example_heatmap = [(((2024, 1, 1), 9), 2), (((2024, 1, 1), 14), 1), (((2024, 1, 2), 9), 1)]"

definition example_repo_heatmap :: "(cell, (string, int) dict) dict" where
  "example_repo_heatmap =
     [(((2024, 1, 1), 9), [(''repoA'', 2)]), (((2024, 1, 1), 14), [(''repoB'', 1)]),
      (((2024, 1, 2), 9), [(''repoA'', 1)])]"

definition example_repo_stats :: "(string, int) dict" where
  "example_repo_stats = [(''repoA'', 3), (''repoB'', 1)]"

section \<open>Scale: the five intensity levels\<close>

text \<open>\<open>max(heatmap.values()) if heatmap else 1\<close>.\<close>

definition max_count_of :: "(cell, int) dict \<Rightarrow> int" where
  "max_count_of heatmap = (case map snd heatmap of [] \<Rightarrow> 1 | v # vs \<Rightarrow> fold max vs v)"

subsection \<open>Python's \<open>int * float\<close> and \<open>int <= float\<close>\<close>

text \<open>
  The thresholds \<open>max_count * 0.25\<close>, \<open>max_count * 0.5\<close> and \<open>max_count * 0.75\<close> are
  products of an \<open>int\<close> and a \<open>float\<close>: Python converts the \<open>int\<close> to the nearest
  double (ties to even, \<open>OverflowError\<close> when it is too large for a double) and multiplies
  two doubles, rounding the exact product the same way. A finite double is kept as a pair
  \<open>(m, e)\<close> of integers standing for \<open>m * 2 ^ e\<close>. The operands here are integers of
  magnitude at least 1, or 0, and the three constants, so no product leaves the range of
  the normal doubles.
\<close>

datatype py_error = OverflowError | OSError

type_synonym double = "int \<times> int"

text \<open>\<open>int.bit_length\<close>.\<close>

fun bit_length :: "nat \<Rightarrow> nat" where
  "bit_length n = (if n = 0 then 0 else Suc (bit_length (n div 2)))"

declare bit_length.simps [simp del]

text \<open>\<open>n / 2 ^ k\<close> rounded to the nearest integer, a tie going to the even one.\<close>

definition shift_round :: "nat \<Rightarrow> nat \<Rightarrow> nat" where
  "shift_round n k =
     (let q = n div 2 ^ k; r = n mod 2 ^ k
      in if 2 ^ k < 2 * r \<or> (2 * r = 2 ^ k \<and> odd q) then q + 1 else q)"

text \<open>Rounding \<open>m * 2 ^ e\<close> to a significand of 53 bits.\<close>

definition round53 :: "double \<Rightarrow> double" where
  "round53 x =
     (case x of (m, e) \<Rightarrow>
        let a = nat \<bar>m\<bar>
        in if bit_length a \<le> 53 then (m, e)
           else let k = bit_length a - 53
                in (sgn m * int (shift_round a k), e + int k))"

text \<open>The conversion of an \<open>int\<close> to a \<open>float\<close>: every double is below \<open>2 ^ 1024\<close>.\<close>

definition float_of_int :: "int \<Rightarrow> py_error + double" where
  "float_of_int n =
     (case round53 (n, 0) of (m, e) \<Rightarrow>
        if 2 ^ 1024 \<le> \<bar>m\<bar> * 2 ^ nat e then Inl OverflowError else Inr (m, e))"

definition float_mul :: "double \<Rightarrow> double \<Rightarrow> double" where
  "float_mul x y = (case x of (m, e) \<Rightarrow> case y of (m', e') \<Rightarrow> round53 (m * m', e + e'))"

text \<open>\<open>n * y\<close> for an \<open>int\<close> \<open>n\<close> and a \<open>float\<close> \<open>y\<close>.\<close>

definition int_times_float :: "int \<Rightarrow> double \<Rightarrow> py_error + double" where
  "int_times_float n y =
     (case float_of_int n of Inl err \<Rightarrow> Inl err | Inr x \<Rightarrow> Inr (float_mul x y))"

text \<open>\<open>n <= y\<close> for an \<open>int\<close> \<open>n\<close> and a \<open>float\<close> \<open>y\<close>: Python compares the exact values.\<close>

definition int_le_float :: "int \<Rightarrow> double \<Rightarrow> bool" where
  "int_le_float n y =
     (case y of (m, e) \<Rightarrow> if 0 \<le> e then n \<le> m * 2 ^ nat e else n * 2 ^ nat (- e) \<le> m)"

text \<open>The literals \<open>0.25\<close>, \<open>0.5\<close> and \<open>0.75\<close>.\<close>

definition float_0_25 :: double where
  "float_0_25 = (1, - 2)"

definition float_0_5 :: double where
  "float_0_5 = (1, - 1)"

definition float_0_75 :: double where
  "float_0_75 = (3, - 2)"

subsection \<open>The two threshold chains\<close>

definition esc :: char where
  "esc = CHR 0x1B"

text \<open>
  The nested function \<open>get_color\<close> of \<open>print_heatmap_table\<close>; \<open>max_count\<close> is its free
  variable. The source's \<open>count\<close> is written \<open>cnt\<close> throughout, \<open>count\<close> being the
  multiplicity function of multisets.
\<close>

definition get_color :: "int \<Rightarrow> int \<Rightarrow> py_error + string" where
  "get_color max_count cnt =
     (if cnt = 0 then Inr (esc # ''[38;5;232m'')
      else
        (case int_times_float max_count float_0_25 of
           Inl err \<Rightarrow> Inl err
         | Inr t1 \<Rightarrow>
             (if int_le_float cnt t1 then Inr (esc # ''[38;5;22m'')
              else
                (case int_times_float max_count float_0_5 of
                   Inl err \<Rightarrow> Inl err
                 | Inr t2 \<Rightarrow>
                     (if int_le_float cnt t2 then Inr (esc # ''[38;5;28m'')
                      else
                        (case int_times_float max_count float_0_75 of
                           Inl err \<Rightarrow> Inl err
                         | Inr t3 \<Rightarrow>
                             (if int_le_float cnt t3 then Inr (esc # ''[38;5;34m'')
                              else Inr (esc # ''[38;5;40m''))))))))"

text \<open>The \<open>level\<close> computed for each cell in the body loop of \<open>generate_html_heatmap\<close>.\<close>

definition html_level :: "int \<Rightarrow> int \<Rightarrow> py_error + nat" where
  "html_level max_count cnt =
     (if cnt = 0 then Inr 0
      else
        (case int_times_float max_count float_0_25 of
           Inl err \<Rightarrow> Inl err
         | Inr t1 \<Rightarrow>
             (if int_le_float cnt t1 then Inr 1
              else
                (case int_times_float max_count float_0_5 of
                   Inl err \<Rightarrow> Inl err
                 | Inr t2 \<Rightarrow>
                     (if int_le_float cnt t2 then Inr 2
                      else
                        (case int_times_float max_count float_0_75 of
                           Inl err \<Rightarrow> Inl err
                         | Inr t3 \<Rightarrow>
                             (if int_le_float cnt t3 then Inr 3
                              else Inr 4)))))))"

text \<open>
  The level as the spec words it, with the exact quarters of \<open>max_count\<close> as inclusive
  bounds.
\<close>

definition quartile_level :: "int \<Rightarrow> int \<Rightarrow> nat" where
  "quartile_level max_count cnt =
     (if cnt = 0 then 0
      else if real_of_int cnt \<le> 0.25 * real_of_int max_count then 1
      else if real_of_int cnt \<le> 0.5 * real_of_int max_count then 2
      else if real_of_int cnt \<le> 0.75 * real_of_int max_count then 3
      else 4)"

text \<open>
  The spec's ordered list of the five terminal colours, from level 0 (darkest) to level 4
  (brightest green), and the position of a colour code in it.
\<close>

definition terminal_colors :: "string list" where
  "terminal_colors =
     [esc # ''[38;5;232m'', esc # ''[38;5;22m'', esc # ''[38;5;28m'',
      esc # ''[38;5;34m'', esc # ''[38;5;40m'']"



section \<open>Text formatting\<close>

definition digit :: "nat \<Rightarrow> char" where
  "digit n = ''0123456789'' ! n"

text \<open>\<open>str(n)\<close> for an \<open>int\<close>: the decimal digits, with a minus sign when negative.\<close>

fun str_nat :: "nat \<Rightarrow> string" where
  "str_nat n = (if n < 10 then [digit n] else str_nat (n div 10) @ [digit (n mod 10)])"

declare str_nat.simps [simp del]

definition str_int :: "int \<Rightarrow> string" where
  "str_int i = (if i < 0 then CHR ''-'' # str_nat (nat (- i)) else str_nat (nat i))"

text \<open>Right alignment in a field of width \<open>w\<close>, as \<open>{x:>w}\<close> and \<open>{n:w}\<close> for a number do.\<close>

definition rjust :: "nat \<Rightarrow> string \<Rightarrow> string" where
  "rjust w s = replicate (w - length s) CHR '' '' @ s"

definition pad2 :: "nat \<Rightarrow> string" where
  "pad2 n = (if n < 10 then CHR ''0'' # str_nat n else str_nat n)"

text \<open>\<open>date.strftime("%m-%d")\<close>.\<close>

definition strftime_md :: "date \<Rightarrow> string" where
  "strftime_md d = pad2 (month d) @ ''-'' @ pad2 (day d)"

definition nl :: string where
  "nl = [CHR 0x0A]"

definition reset_color :: string where
  "reset_color = esc # ''[0m''"

section \<open>What the renderers emit\<close>

text \<open>
  The summary below the grid is the same in the three renderers, up to markup. Its lines
  contain non-ASCII text and a percentage printed with \<open>.1f\<close>; they are kept as values:
  \<^item> \<open>Total_commits n\<close>: the line with \<open>sum(heatmap.values())\<close>;
  \<^item> \<open>Repo_heading\<close> and one \<open>Repo_line name count percentage\<close> per repository;
  \<^item> \<open>Date_range first last\<close>: \<open>dates[0]\<close> and \<open>dates[-1]\<close>, printed as \<open>%Y-%m-%d\<close>;
  \<^item> \<open>Days_with_commits n\<close>: \<open>len(dates)\<close>;
  \<^item> \<open>Busiest date hour n\<close>: the first cell with the greatest count.
\<close>

datatype summary_item =
    Total_commits int
  | Repo_heading
  | Repo_line string int real
  | Date_range date date
  | Days_with_commits nat
  | Busiest date nat int

text \<open>
  One value per \<open>print\<close> call. \<open>No_data\<close> is the notice (bytes E6 B2 A1 E6 9C 89 E6 95 B0
  E6 8D AE E5 8F AF E6 98 BE E7 A4 BA and a newline); \<open>Text s\<close> is an ASCII print, \<open>s\<close>
  being exactly the characters written, \<open>end\<close> included; \<open>Html_generated path\<close> is the
  closing message of \<open>generate_html_heatmap\<close>.
\<close>

datatype printed =
    No_data
  | Text string
  | Summary summary_item
  | Html_generated string

text \<open>
  A renderer prints as it goes: when a step raises, what was printed before stays printed.
  \<open>run\<close> takes the steps in order, each a printed value or the error it raises, and
  gives what is printed and the error that ended the run, if any. \<open>collect\<close> is for
  values built in memory: the first error is the result and nothing is kept.
\<close>

fun run :: "(py_error + 'a) list \<Rightarrow> 'a list \<times> py_error option" where
  "run [] = ([], None)"
| "run (Inl err # steps) = ([], Some err)"
| "run (Inr x # steps) = (case run steps of (out, err) \<Rightarrow> (x # out, err))"

fun collect :: "(py_error + 'a) list \<Rightarrow> py_error + 'a list" where
  "collect [] = Inr []"
| "collect (Inl err # steps) = Inl err"
| "collect (Inr x # steps) =
     (case collect steps of Inl err \<Rightarrow> Inl err | Inr xs \<Rightarrow> Inr (x # xs))"

text \<open>\<open>sorted(set(date for date, _ in heatmap.keys()))\<close>.\<close>

definition dates_of :: "(cell, int) dict \<Rightarrow> date list" where
  "dates_of heatmap = sort (remdups (map (\<lambda>((date, _), _). date) heatmap))"

text \<open>\<open>max(items, key=lambda x: x[1])\<close> on a non-empty sequence: the first greatest item.\<close>

definition max_item :: "('k \<times> int) \<Rightarrow> ('k \<times> int) list \<Rightarrow> 'k \<times> int" where
  "max_item x xs = fold (\<lambda>y best. if snd best < snd y then y else best) xs x"

text \<open>
  \<open>(count / total_commits * 100) if total_commits > 0 else 0\<close>, a float in the source,
  a real number here.
\<close>

definition percentage :: "int \<Rightarrow> int \<Rightarrow> real" where
  "percentage cnt total_commits =
     (if total_commits > 0 then real_of_int cnt / real_of_int total_commits * 100 else 0)"

text \<open>
  \<open>sorted(repo_stats.items(), key=lambda x: x[1], reverse=True)\<close>: a stable sort by
  descending count.
\<close>

definition repo_lines :: "(string, int) dict option \<Rightarrow> int \<Rightarrow> summary_item list" where
  "repo_lines repo_stats total_commits =
     (case repo_stats of
        None \<Rightarrow> []
      | Some rs \<Rightarrow>
          if rs \<noteq> [] \<and> length rs > 1
          then Repo_heading #
               map (\<lambda>(repo_name, cnt). Repo_line repo_name cnt (percentage cnt total_commits))
                   (sort_key (\<lambda>x. - snd x) rs)
          else [])"

definition summary :: "(cell, int) dict \<Rightarrow> (string, int) dict option \<Rightarrow> date list \<Rightarrow> summary_item list" where
  "summary heatmap repo_stats dates =
     (let total_commits = sum_values heatmap
      in [Total_commits total_commits]
         @ repo_lines repo_stats total_commits
         @ [Date_range (hd dates) (last dates), Days_with_commits (length dates)]
         @ (case heatmap of
              [] \<Rightarrow> []
            | x # xs \<Rightarrow> (case max_item x xs of ((date, hour), n) \<Rightarrow> [Busiest date hour n])))"

section \<open>Terminal renderers\<close>

text \<open>The 2-character body of a cell in colour mode.\<close>

definition block_of :: "int \<Rightarrow> string" where
  "block_of cnt =
     (if cnt = 0 then ''  ''
      else if cnt < 10 then rjust 2 (str_int cnt)
      else ''++'')"

text \<open>
  One cell of the colour grid: the lookup, \<open>get_color(count)\<close>, which may raise, and the
  block; then \<open>print(f"{color}{block}{reset_color}", end="  ")\<close>.
\<close>

definition terminal_cell ::
  "(cell, int) dict \<Rightarrow> int \<Rightarrow> nat \<Rightarrow> date \<Rightarrow> py_error + (string \<times> string)" where
  "terminal_cell heatmap max_count hour date =
     (let cnt = dict_get heatmap (date, hour) 0
      in case get_color max_count cnt of
           Inl err \<Rightarrow> Inl err
         | Inr color \<Rightarrow> (let block = block_of cnt in Inr (color, block)))"

definition print_cell :: "string \<times> string \<Rightarrow> printed" where
  "print_cell cb = (case cb of (color, block) \<Rightarrow> Text (color @ block @ reset_color @ ''  ''))"

text \<open>
  The prints of \<open>print_heatmap_table\<close> after its guard, in order, each with the error it
  may raise: the header line, then for each hour the label, one cell per date and a
  newline, then the summary.
\<close>

definition table_steps ::
  "(cell, int) dict \<Rightarrow> (string, int) dict option \<Rightarrow> (py_error + printed) list" where
  "table_steps heatmap repo_stats =
     (let dates = dates_of heatmap;
          max_count = max_count_of heatmap
      in [Inr (Text (nl @ replicate 6 CHR '' ''))]
         @ map (\<lambda>date. Inr (Text (rjust 6 (strftime_md date)))) dates
         @ [Inr (Text nl)]
         @ concat (map (\<lambda>hour.
               [Inr (Text (rjust 2 (str_nat hour) @ '' ''))]
               @ map (\<lambda>date. map_sum id print_cell
                                (terminal_cell heatmap max_count hour date)) dates
               @ [Inr (Text nl)]) [0..<24])
         @ map (\<lambda>item. Inr (Summary item)) (summary heatmap repo_stats dates))"

text \<open>\<open>print_heatmap_table\<close>: what it prints, and the error that ended it, if any.\<close>

definition print_heatmap_table ::
  "(cell, int) dict \<Rightarrow> (string, int) dict option \<Rightarrow> printed list \<times> py_error option" where
  "print_heatmap_table heatmap repo_stats =
     (if heatmap = [] then ([No_data], None) else run (table_steps heatmap repo_stats))"

definition print_heatmap_table_plain :: "(cell, int) dict \<Rightarrow> (string, int) dict option \<Rightarrow> printed list" where
  "print_heatmap_table_plain heatmap repo_stats =
     (if heatmap = [] then [No_data]
      else
        let dates = dates_of heatmap
        in [Text (nl @ replicate 6 CHR '' '')]
           @ map (\<lambda>date. Text (rjust 8 (strftime_md date))) dates
           @ [Text nl]
           @ concat (map (\<lambda>hour.
                 [Text (rjust 2 (str_nat hour) @ '' '')]
                 @ map (\<lambda>date. Text (rjust 8 (str_int (dict_get heatmap (date, hour) 0)))) dates
                 @ [Text nl]) [0..<24])
           @ map Summary (summary heatmap repo_stats dates))"

section \<open>HTML renderer\<close>

text \<open>
  The year-span header loop over \<open>enumerate(dates)\<close>. Its state is \<open>current_year\<close>
  (\<open>None\<close> before the first date), \<open>year_start_idx\<close> and the list \<open>year_colspans\<close>. The
  dict \<open>year_counts\<close> filled just before it is never read and is left out.
\<close>

fun year_loop ::
  "(nat \<times> date) list \<Rightarrow> nat option \<times> nat \<times> (nat \<times> int) list \<Rightarrow>
   nat option \<times> nat \<times> (nat \<times> int) list" where
  "year_loop [] s = s"
| "year_loop ((i, date) # rest) (current_year, year_start_idx, year_colspans) =
     (if Some (year date) \<noteq> current_year
      then year_loop rest
             (Some (year date), i,
              (case current_year of
                 None \<Rightarrow> year_colspans
               | Some cy \<Rightarrow> year_colspans @ [(cy, int i - int year_start_idx)]))
      else year_loop rest (current_year, year_start_idx, year_colspans))"

text \<open>The loop, followed by the closing \<open>if current_year is not None\<close>.\<close>

definition year_colspans_of :: "date list \<Rightarrow> (nat \<times> int) list" where
  "year_colspans_of dates =
     (case year_loop (enumerate 0 dates) (None, 0, []) of
        (current_year, year_start_idx, year_colspans) \<Rightarrow>
          (case current_year of
             None \<Rightarrow> year_colspans
           | Some cy \<Rightarrow> year_colspans @ [(cy, int (length dates) - int year_start_idx)]))"

definition date_header_class :: string where
  \<open>date_header_class = '' class="date-header"''\<close>

text \<open>
  The date header loop: one \<open>(class_attr, date_str)\<close> per date, for the cell
  \<open><th{class_attr}>{date_str}</th>\<close>; \<open>prev_year\<close> is the loop's state.
\<close>

fun date_header_loop :: "date list \<Rightarrow> nat option \<Rightarrow> (string \<times> string) list" where
  "date_header_loop [] prev_year = []"
| "date_header_loop (date # rest) prev_year =
     (let date_str = strftime_md date;
          current_year = year date;
          is_year_boundary = (prev_year \<noteq> None \<and> Some current_year \<noteq> prev_year);
          class_attr = (if is_year_boundary then date_header_class else '''')
      in (class_attr, date_str) # date_header_loop rest (Some current_year))"

text \<open>
  The tooltip of a body cell: the date (printed \<open>%Y-%m-%d\<close>), the hour, the count and,
  when \<open>repo_heatmap\<close> has the cell, its \<open>sorted(repo_details.items())\<close>.
\<close>

datatype tooltip = Tooltip date nat int "(string \<times> int) list option"

text \<open>
  One body cell, \<open><td><div class="cell level-{level}">...{tooltip_text}...</td>\<close>: its
  level, whose computation may raise, and its tooltip.
\<close>

definition html_cell ::
  "(cell, int) dict \<Rightarrow> (cell, (string, int) dict) dict option \<Rightarrow> int \<Rightarrow> nat \<Rightarrow> date \<Rightarrow>
   py_error + (nat \<times> tooltip)" where
  "html_cell heatmap repo_heatmap max_count hour date =
     (let cnt = dict_get heatmap (date, hour) 0
      in case html_level max_count cnt of
           Inl err \<Rightarrow> Inl err
         | Inr level \<Rightarrow>
            (let tooltip_text =
                   (case repo_heatmap of
                      None \<Rightarrow> Tooltip date hour cnt None
                    | Some rh \<Rightarrow>
                        (case map_of rh (date, hour) of
                           None \<Rightarrow> Tooltip date hour cnt None
                         | Some repo_details \<Rightarrow>
                             Tooltip date hour cnt (Some (sort repo_details))))
             in Inr (level, tooltip_text)))"

text \<open>
  The document held by the variable \<open>html\<close> when it is written, or the error raised while
  it is built. Between its constant parts (style sheet, script, legend) it has, in this
  order: the year-span header row after an empty corner cell, one
  \<open><th class="year-header" colspan="{colspan}">\<close> with the text \<open>{year}\<close> per entry of
  \<open>year_colspans\<close>; the date header row after an empty corner cell; 24 body rows, each
  the hour label \<open>{hour:2}\<close> and one cell per date; the summary.
\<close>

record html_doc =
  year_row :: "(nat \<times> int) list"
  date_row :: "(string \<times> string) list"
  body :: "(nat \<times> (nat \<times> tooltip) list) list"
  stats :: "summary_item list"

text \<open>The 24 body rows, built cell by cell.\<close>

definition html_body ::
  "(cell, int) dict \<Rightarrow> (cell, (string, int) dict) dict option \<Rightarrow>
   py_error + (nat \<times> (nat \<times> tooltip) list) list" where
  "html_body heatmap repo_heatmap =
     (let dates = dates_of heatmap;
          max_count = max_count_of heatmap
      in collect (map (\<lambda>hour.
             map_sum id (Pair hour)
               (collect (map (html_cell heatmap repo_heatmap max_count hour) dates)))
           [0..<24]))"

definition html_document ::
  "(cell, int) dict \<Rightarrow> (string, int) dict option \<Rightarrow> (cell, (string, int) dict) dict option \<Rightarrow>
   py_error + html_doc" where
  "html_document heatmap repo_stats repo_heatmap =
     (let dates = dates_of heatmap
      in case html_body heatmap repo_heatmap of
           Inl err \<Rightarrow> Inl err
         | Inr rows \<Rightarrow>
             Inr \<lparr>year_row = year_colspans_of dates,
                  date_row = date_header_loop dates None,
                  body = rows,
                  stats = summary heatmap repo_stats dates\<rparr>)"

text \<open>
  The file system as far as the renderer touches it: the documents stored at each path,
  and the paths at which \<open>write_text\<close> raises \<open>OSError\<close>.
\<close>

record world =
  files :: "string \<rightharpoonup> html_doc"
  unwritable :: "string set"

text \<open>
  \<open>generate_html_heatmap\<close> returns what it printed and the file system it leaves, or the
  error raised while the document is built or written.
\<close>

definition generate_html_heatmap ::
  "(cell, int) dict \<Rightarrow> string \<Rightarrow> (string, int) dict option \<Rightarrow>
   (cell, (string, int) dict) dict option \<Rightarrow> world \<Rightarrow> py_error + (printed list \<times> world)" where
  "generate_html_heatmap heatmap output_path repo_stats repo_heatmap w =
     (if heatmap = [] then Inr ([No_data], w)
      else
        case html_document heatmap repo_stats repo_heatmap of
          Inl err \<Rightarrow> Inl err
        | Inr html \<Rightarrow>
            if output_path \<in> unwritable w then Inl OSError
            else Inr ([Html_generated output_path],
                      w\<lparr>files := (files w)(output_path \<mapsto> html)\<rparr>))"

text \<open>
  The runs of equal adjacent elements of a list, each with its length: \<open>runs_from y n ys\<close>
  continues a run of \<open>n\<close> elements \<open>y\<close> seen so far.
\<close>

fun runs_from :: "'a \<Rightarrow> nat \<Rightarrow> 'a list \<Rightarrow> ('a \<times> int) list" where
  "runs_from y n [] = [(y, int n)]"
| "runs_from y n (z # zs) =
     (if z = y then runs_from y (Suc n) zs else (y, int n) # runs_from z 1 zs)"

definition runs :: "'a list \<Rightarrow> ('a \<times> int) list" where
  "runs xs = (case xs of [] \<Rightarrow> [] | y # ys \<Rightarrow> runs_from y 1 ys)"


text \<open>The closing \<open>if current_year is not None\<close> applied to a state of the year loop.\<close>

definition finish :: "nat option \<times> nat \<times> (nat \<times> int) list \<Rightarrow> nat \<Rightarrow> (nat \<times> int) list" where
  "finish s n =
     (case s of (current_year, year_start_idx, year_colspans) \<Rightarrow>
        (case current_year of
           None \<Rightarrow> year_colspans
         | Some cy \<Rightarrow> year_colspans @ [(cy, int n - int year_start_idx)]))"

text \<open>An aggregate whose dates span a change of year, and a file system with a file in place.\<close>

definition two_year_heatmap :: "(cell, int) dict" where
  "two_year_heatmap =
     [(((2024, 1, 1), 0), 2), (((2023, 12, 31), 23), 1), (((2024, 1, 2), 5), 1)]"

definition old_doc :: html_doc where
  "old_doc =
     \<lparr>year_row = [(2023, 1)], date_row = [('''', ''12-31'')], body = [], stats = []\<rparr>"

definition old_world :: world where
  "old_world = \<lparr>files = [''out.html'' \<mapsto> old_doc], unwritable = {''out.html''}\<rparr>"


section \<open>Properties of the aggregation\<close>

subsection \<open>One step of the loop\<close>

lemma dict_get_Nil: "dict_get [] k d = d"
  by (simp add: dict_get_def)

lemma map_of_incr: "map_of (incr k d) = (map_of d)(k \<mapsto> dict_get d k 0 + 1)"
  by (simp add: incr_def update_conv')

lemma map_of_incr2: "map_of (incr2 k r d) = (map_of d)(k \<mapsto> incr r (dict_get d k []))"
  by (simp add: incr2_def update_conv')

lemma sum_list_update:
  "sum_list (map snd (AList.update k v d)) = sum_list (map snd d) - dict_get d k 0 + (v::int)"
  by (induction d) (auto simp: dict_get_def)

lemma sum_values_incr: "sum_values (incr k d) = sum_values d + 1"
  by (simp add: sum_values_def incr_def sum_list_update)

lemma distinct_incr: "distinct (map fst d) \<Longrightarrow> distinct (map fst (incr k d))"
  by (simp add: incr_def distinct_update)

lemma distinct_incr2: "distinct (map fst d) \<Longrightarrow> distinct (map fst (incr2 k r d))"
  by (simp add: incr2_def distinct_update)

lemma dict_get_incr: "dict_get (incr k d) k' 0 = dict_get d k' 0 + (if k' = k then 1 else 0)"
  by (simp add: dict_get_def map_of_incr)

lemma dom_incr: "dom (map_of (incr k d)) = insert k (dom (map_of d))"
  by (simp add: map_of_incr)

lemma dict_get_incr2:
  "dict_get (incr2 k r d) k' [] = (if k' = k then incr r (dict_get d k []) else dict_get d k' [])"
  by (simp add: dict_get_def map_of_incr2)

lemma dom_incr2: "dom (map_of (incr2 k r d)) = insert k (dom (map_of d))"
  by (simp add: map_of_incr2)

lemma cells_agree_step:
  assumes "cells_agree h rh"
  shows "cells_agree (incr k h) (incr2 k r rh)"
proof -
  have "dict_get h k 0 = sum_values (dict_get rh k [])"
  proof -
    from assms have "map_of h k = map_option sum_values (map_of rh k)"
      unfolding cells_agree_def by blast
    then show ?thesis
      by (cases "map_of rh k") (simp_all add: dict_get_def sum_values_def)
  qed
  with assms show ?thesis
    by (simp add: cells_agree_def map_of_incr map_of_incr2 sum_values_incr)
qed

lemma inner_distinct_Nil: "inner_distinct []"
  by (simp add: inner_distinct_def)

lemma inner_distinct_incr2: "inner_distinct d \<Longrightarrow> inner_distinct (incr2 k r d)"
  by (auto simp: inner_distinct_def map_of_incr2 dict_get_def distinct_incr split: option.splits)

subsection \<open>The whole loop\<close>

lemma loop_sums:
  "generate_heatmap_loop cs s = (h', rh', rs') \<Longrightarrow> s = (h, rh, rs) \<Longrightarrow>
   sum_values h' = sum_values h + int (length cs) \<and>
   sum_values rs' = sum_values rs + int (length cs)"
proof (induction cs s arbitrary: h rh rs rule: generate_heatmap_loop.induct)
  case (1 s)
  then show ?case by simp
next
  case (2 date hour repo_name commits heatmap repo_heatmap repo_stats)
  then show ?case by (simp add: sum_values_incr)
qed

lemma loop_cells_agree:
  "generate_heatmap_loop cs s = (h', rh', rs') \<Longrightarrow> s = (h, rh, rs) \<Longrightarrow> cells_agree h rh \<Longrightarrow>
   cells_agree h' rh'"
proof (induction cs s arbitrary: h rh rs rule: generate_heatmap_loop.induct)
  case (1 s)
  then show ?case by simp
next
  case (2 date hour repo_name commits heatmap repo_heatmap repo_stats)
  then show ?case by (simp add: cells_agree_step)
qed

text \<open>Each of the three dicts is a fold of its own over the list.\<close>

lemma loop_heatmap:
  "fst (generate_heatmap_loop cs (h, rh, rs)) = fold incr (map cell_of cs) h"
  by (induction cs "(h, rh, rs)" arbitrary: h rh rs rule: generate_heatmap_loop.induct)
     (simp_all add: cell_of_def)

lemma loop_repo_stats:
  "snd (snd (generate_heatmap_loop cs (h, rh, rs))) = fold incr (map repo_of cs) rs"
  by (induction cs "(h, rh, rs)" arbitrary: h rh rs rule: generate_heatmap_loop.induct)
     (simp_all add: repo_of_def)

lemma loop_repo_heatmap:
  "fst (snd (generate_heatmap_loop cs (h, rh, rs))) =
     fold (\<lambda>c. incr2 (cell_of c) (repo_of c)) cs rh"
  by (induction cs "(h, rh, rs)" arbitrary: h rh rs rule: generate_heatmap_loop.induct)
     (simp_all add: cell_of_def repo_of_def)

lemma dict_get_fold_incr:
  "dict_get (fold incr ks d) k 0 = dict_get d k 0 + int (count (mset ks) k)"
  by (induction ks arbitrary: d) (simp_all add: dict_get_incr)

lemma dom_fold_incr: "dom (map_of (fold incr ks d)) = dom (map_of d) \<union> set ks"
  by (induction ks arbitrary: d) (simp_all add: dom_incr)

lemma distinct_fold_incr: "distinct (map fst d) \<Longrightarrow> distinct (map fst (fold incr ks d))"
  by (induction ks arbitrary: d) (simp_all add: distinct_incr)

lemma map_of_eq_dict_get:
  "map_of a k = (if k \<in> dom (map_of a) then Some (dict_get a k d) else None)"
  by (auto simp: dict_get_def split: option.splits)

lemma map_of_fold_incr: "map_of (fold incr ks []) = cnt_map (mset ks)"
proof
  fix k
  have "dom (map_of (fold incr ks [])) = set ks"
    by (simp add: dom_fold_incr)
  moreover have "dict_get (fold incr ks []) k 0 = int (count (mset ks) k)"
    by (simp add: dict_get_fold_incr dict_get_Nil)
  ultimately show "map_of (fold incr ks []) k = cnt_map (mset ks) k"
    using map_of_eq_dict_get [of "fold incr ks []" k 0] by (simp add: cnt_map_def)
qed

lemma dict_get_fold_incr2:
  "dict_get (fold (\<lambda>c. incr2 (cell_of c) (repo_of c)) cs d) k [] =
     fold incr (map repo_of (filter (\<lambda>c. cell_of c = k) cs)) (dict_get d k [])"
  by (induction cs arbitrary: d) (simp_all add: dict_get_incr2)

lemma dom_fold_incr2:
  "dom (map_of (fold (\<lambda>c. incr2 (cell_of c) (repo_of c)) cs d)) =
     dom (map_of d) \<union> cell_of ` set cs"
  by (induction cs arbitrary: d) (simp_all add: dom_incr2)

lemma inner_distinct_fold:
  "inner_distinct d \<Longrightarrow> inner_distinct (fold (\<lambda>c. incr2 (cell_of c) (repo_of c)) cs d)"
  by (induction cs arbitrary: d) (simp_all add: inner_distinct_incr2)

lemma distinct_fold_incr2:
  "distinct (map fst d) \<Longrightarrow>
   distinct (map fst (fold (\<lambda>c. incr2 (cell_of c) (repo_of c)) cs d))"
  by (induction cs arbitrary: d) (simp_all add: distinct_incr2)

lemma as_map2_fold_incr2:
  "as_map2 (fold (\<lambda>c. incr2 (cell_of c) (repo_of c)) cs []) = cnt_map2 (mset cs)"
proof
  fix k
  let ?d = "fold (\<lambda>c. incr2 (cell_of c) (repo_of c)) cs []"
  have dom: "dom (map_of ?d) = cell_of ` set cs"
    by (simp add: dom_fold_incr2)
  have get: "dict_get ?d k [] = fold incr (map repo_of (filter (\<lambda>c. cell_of c = k) cs)) []"
    by (simp add: dict_get_fold_incr2 dict_get_Nil)
  show "as_map2 ?d k = cnt_map2 (mset cs) k"
  proof (cases "k \<in> cell_of ` set cs")
    case True
    with dom obtain inner where inner: "map_of ?d k = Some inner" by blast
    with get have "inner = fold incr (map repo_of (filter (\<lambda>c. cell_of c = k) cs)) []"
      by (simp add: dict_get_def)
    then have "map_of inner =
        cnt_map (image_mset repo_of (filter_mset (\<lambda>c. cell_of c = k) (mset cs)))"
      by (simp add: map_of_fold_incr)
    with True inner show ?thesis
      by (simp add: as_map2_def cnt_map2_def)
  next
    case False
    with dom have "map_of ?d k = None" by blast
    with False show ?thesis by (simp add: as_map2_def cnt_map2_def)
  qed
qed

text \<open>The aggregate is a function of the multiset of records, and its dicts are well formed.\<close>

lemma generate_heatmap_maps:
  assumes "generate_heatmap cs = (h, rh, rs)"
  shows "map_of h = cnt_map (image_mset cell_of (mset cs))"
    and "as_map2 rh = cnt_map2 (mset cs)"
    and "map_of rs = cnt_map (image_mset repo_of (mset cs))"
proof -
  from assms have "h = fst (generate_heatmap_loop cs ([], [], []))"
    "rh = fst (snd (generate_heatmap_loop cs ([], [], [])))"
    "rs = snd (snd (generate_heatmap_loop cs ([], [], [])))"
    by (simp_all add: generate_heatmap_def)
  then show "map_of h = cnt_map (image_mset cell_of (mset cs))"
    and "as_map2 rh = cnt_map2 (mset cs)"
    and "map_of rs = cnt_map (image_mset repo_of (mset cs))"
    by (simp_all add: loop_heatmap loop_repo_heatmap loop_repo_stats map_of_fold_incr
        as_map2_fold_incr2)
qed

lemma generate_heatmap_distinct:
  assumes "generate_heatmap cs = (h, rh, rs)"
  shows "distinct (map fst h)" and "distinct (map fst rh)" and "inner_distinct rh"
    and "distinct (map fst rs)"
proof -
  from assms have "h = fst (generate_heatmap_loop cs ([], [], []))"
    "rh = fst (snd (generate_heatmap_loop cs ([], [], [])))"
    "rs = snd (snd (generate_heatmap_loop cs ([], [], [])))"
    by (simp_all add: generate_heatmap_def)
  then show "distinct (map fst h)" and "distinct (map fst rh)" and "inner_distinct rh"
    and "distinct (map fst rs)"
    by (simp_all add: loop_heatmap loop_repo_heatmap loop_repo_stats distinct_fold_incr
        distinct_fold_incr2 inner_distinct_fold inner_distinct_Nil)
qed

lemma example_aggregate:
  "generate_heatmap example_commits =
     (example_heatmap, example_repo_heatmap, example_repo_stats)"
  by (simp add: generate_heatmap_def example_commits_def incr_def incr2_def dict_get_def
      example_heatmap_def example_repo_heatmap_def example_repo_stats_def)

text \<open>
  Claim C1 (conservation). For every list of commit records, the values of \<open>heatmap\<close> sum
  to the length of the list, so do the values of \<open>repo_stats\<close>, and every key of
  \<open>heatmap\<close> is a key of \<open>repo_heatmap\<close> whose per-source counts sum to the cell's total.
\<close>

theorem generate_heatmap_conservation:
  assumes "generate_heatmap commits = (heatmap, repo_heatmap, repo_stats)"
  shows "sum_values heatmap = int (length commits)
       \<and> sum_values repo_stats = int (length commits)
       \<and> sum_values heatmap = sum_values repo_stats
       \<and> (\<forall>key v. map_of heatmap key = Some v \<longrightarrow>
            (\<exists>inner. map_of repo_heatmap key = Some inner \<and> v = sum_values inner))"
proof -
  from assms have loop: "generate_heatmap_loop commits ([], [], []) = (heatmap, repo_heatmap, repo_stats)"
    by (simp add: generate_heatmap_def)
  have sums: "sum_values heatmap = int (length commits)"
    "sum_values repo_stats = int (length commits)"
    using loop_sums [OF loop refl] by (simp_all add: sum_values_def)
  have "cells_agree [] []"
    by (simp add: cells_agree_def)
  then have "cells_agree heatmap repo_heatmap"
    by (rule loop_cells_agree [OF loop refl])
  then have "\<forall>key v. map_of heatmap key = Some v \<longrightarrow>
      (\<exists>inner. map_of repo_heatmap key = Some inner \<and> v = sum_values inner)"
    by (auto simp: cells_agree_def)
  with sums show ?thesis by simp
qed

theorem generate_heatmap_conservation_witness:
  "generate_heatmap example_commits = (example_heatmap, example_repo_heatmap, example_repo_stats)
   \<and> sum_values example_heatmap = 4 \<and> sum_values example_repo_stats = 4
   \<and> length example_commits = 4
   \<and> map_of example_heatmap ((2024, 1, 1), 9) = Some 2
   \<and> (\<exists>inner. map_of example_repo_heatmap ((2024, 1, 1), 9) = Some inner
         \<and> 2 = sum_values inner)"
proof -
  have len: "length example_commits = 4"
    by (simp add: example_commits_def)
  have cell: "map_of example_heatmap ((2024, 1, 1), 9) = Some 2"
    by (simp add: example_heatmap_def)
  note c = generate_heatmap_conservation [OF example_aggregate]
  from c len have sums: "sum_values example_heatmap = 4" "sum_values example_repo_stats = 4"
    by simp_all
  from c have "\<forall>key v. map_of example_heatmap key = Some v \<longrightarrow>
      (\<exists>inner. map_of example_repo_heatmap key = Some inner \<and> v = sum_values inner)"
    by blast
  with cell have "\<exists>inner. map_of example_repo_heatmap ((2024, 1, 1), 9) = Some inner
      \<and> 2 = sum_values inner"
    by blast
  with sums len cell example_aggregate show ?thesis
    by blast
qed

subsection \<open>Order independence\<close>

text \<open>
  Claim C4 (commutativity). Two lists of commit records that are permutations of each
  other give the same three dicts, as key-value mappings.
\<close>

theorem generate_heatmap_permutation:
  assumes "mset commits = mset commits'"
  shows "map_of (heatmap_of (generate_heatmap commits))
           = map_of (heatmap_of (generate_heatmap commits'))
       \<and> as_map2 (repo_heatmap_of (generate_heatmap commits))
           = as_map2 (repo_heatmap_of (generate_heatmap commits'))
       \<and> map_of (repo_stats_of (generate_heatmap commits))
           = map_of (repo_stats_of (generate_heatmap commits'))"
proof -
  obtain h rh rs where a: "generate_heatmap commits = (h, rh, rs)"
    by (cases "generate_heatmap commits")
  obtain h' rh' rs' where b: "generate_heatmap commits' = (h', rh', rs')"
    by (cases "generate_heatmap commits'")
  from assms show ?thesis
    by (simp add: a b heatmap_of_def repo_heatmap_of_def repo_stats_of_def
        generate_heatmap_maps [OF a] generate_heatmap_maps [OF b])
qed

theorem generate_heatmap_permutation_witness:
  "mset example_commits = mset (rev example_commits)
   \<and> map_of (heatmap_of (generate_heatmap example_commits))
       = map_of (heatmap_of (generate_heatmap (rev example_commits)))
   \<and> as_map2 (repo_heatmap_of (generate_heatmap example_commits))
       = as_map2 (repo_heatmap_of (generate_heatmap (rev example_commits)))
   \<and> map_of (repo_stats_of (generate_heatmap example_commits))
       = map_of (repo_stats_of (generate_heatmap (rev example_commits)))"
  using generate_heatmap_permutation [of example_commits "rev example_commits"]
  by simp

subsection \<open>Merging partial aggregates\<close>

lemma map_of_merge_with:
  "distinct (map fst b) \<Longrightarrow>
   map_of (merge_with f z a b) k =
     (case map_of b k of None \<Rightarrow> map_of a k | Some v \<Rightarrow> Some (f (dict_get a k z) v))"
proof (induction b arbitrary: a)
  case Nil
  then show ?case by (simp add: merge_with_def)
next
  case (Cons p b)
  obtain k' v' where p: "p = (k', v')" by (cases p)
  let ?a = "AList.update k' (f (dict_get a k' z) v') a"
  have step: "merge_with f z a (p # b) = merge_with f z ?a b"
    by (simp add: merge_with_def p)
  from Cons.prems p have notin: "k' \<notin> fst ` set b" and dist: "distinct (map fst b)"
    by auto
  have IH: "map_of (merge_with f z ?a b) k =
     (case map_of b k of None \<Rightarrow> map_of ?a k | Some v \<Rightarrow> Some (f (dict_get ?a k z) v))"
    using Cons.IH [OF dist] .
  show ?case
  proof (cases "k = k'")
    case True
    with notin have "map_of b k = None"
      by (simp add: map_of_eq_None_iff)
    with True IH step p show ?thesis
      by (simp add: update_conv')
  next
    case False
    then have "map_of ?a k = map_of a k" "dict_get ?a k z = dict_get a k z"
      by (simp_all add: update_conv' dict_get_def)
    with False IH step p show ?thesis
      by (simp split: option.split)
  qed
qed

lemma cnt_map_get: "map_of a = cnt_map A \<Longrightarrow> dict_get a k 0 = int (count A k)"
  by (simp add: dict_get_def cnt_map_def not_in_iff)

lemma cnt_map_empty: "cnt_map {#} = Map.empty"
  by (rule ext) (simp add: cnt_map_def)

lemma map_of_merge_counts:
  assumes a: "map_of a = cnt_map A" and b: "map_of b = cnt_map B" and d: "distinct (map fst b)"
  shows "map_of (merge_counts a b) = cnt_map (A + B)"
proof
  fix k
  have "map_of (merge_counts a b) k =
     (case map_of b k of None \<Rightarrow> map_of a k | Some v \<Rightarrow> Some (dict_get a k 0 + v))"
    unfolding merge_counts_def by (rule map_of_merge_with [OF d])
  also have "\<dots> = cnt_map (A + B) k"
    using cnt_map_get [OF a, of k]
    by (auto simp: a b cnt_map_def not_in_iff)
  finally show "map_of (merge_counts a b) k = cnt_map (A + B) k" .
qed

lemma filter_cell_empty:
  "k \<notin># image_mset cell_of X \<Longrightarrow> filter_mset (\<lambda>c. cell_of c = k) X = {#}"
  by auto

lemma cnt_map2_inner:
  assumes "as_map2 rh = cnt_map2 X"
  shows "map_of (dict_get rh k []) =
     cnt_map (image_mset repo_of (filter_mset (\<lambda>c. cell_of c = k) X))"
proof (cases "map_of rh k")
  case None
  with assms have "cnt_map2 X k = None"
    by (metis as_map2_def option.simps(8))
  then have "k \<notin># image_mset cell_of X"
    by (simp add: cnt_map2_def split: if_splits)
  with None show ?thesis
    by (simp add: dict_get_def cnt_map_empty filter_cell_empty)
next
  case (Some inner)
  with assms have "cnt_map2 X k = Some (map_of inner)"
    by (metis as_map2_def option.simps(9))
  with Some show ?thesis
    by (simp add: cnt_map2_def dict_get_def split: if_splits)
qed

lemma cnt_map2_dom:
  assumes "as_map2 rh = cnt_map2 X"
  shows "map_of rh k = None \<longleftrightarrow> k \<notin># image_mset cell_of X"
proof -
  have "as_map2 rh k = cnt_map2 X k" using assms by simp
  then show ?thesis
    by (cases "map_of rh k") (auto simp: as_map2_def cnt_map2_def split: if_splits)
qed

lemma as_map2_merge_nested:
  assumes a: "as_map2 a = cnt_map2 A" and b: "as_map2 b = cnt_map2 B"
    and d: "distinct (map fst b)" and di: "inner_distinct b"
  shows "as_map2 (merge_nested a b) = cnt_map2 (A + B)"
proof
  fix k
  have m: "map_of (merge_nested a b) k =
     (case map_of b k of None \<Rightarrow> map_of a k
      | Some v \<Rightarrow> Some (merge_counts (dict_get a k []) v))"
    unfolding merge_nested_def by (rule map_of_merge_with [OF d])
  show "as_map2 (merge_nested a b) k = cnt_map2 (A + B) k"
  proof (cases "map_of b k")
    case None
    then have nb: "k \<notin># image_mset cell_of B"
      using cnt_map2_dom [OF b, of k] by simp
    from None m have "as_map2 (merge_nested a b) k = as_map2 a k"
      by (simp add: as_map2_def)
    also have "\<dots> = cnt_map2 A k" by (simp add: a)
    also have "\<dots> = cnt_map2 (A + B) k"
      using nb by (simp add: cnt_map2_def filter_cell_empty)
    finally show ?thesis .
  next
    case (Some inner)
    then have kb: "k \<in># image_mset cell_of B"
      using cnt_map2_dom [OF b, of k] by auto
    from Some di have dinner: "distinct (map fst inner)"
      unfolding inner_distinct_def by blast
    from Some have "map_of inner =
        cnt_map (image_mset repo_of (filter_mset (\<lambda>c. cell_of c = k) B))"
      using cnt_map2_inner [OF b, of k] by (simp add: dict_get_def)
    then have "map_of (merge_counts (dict_get a k []) inner) =
        cnt_map (image_mset repo_of (filter_mset (\<lambda>c. cell_of c = k) A)
               + image_mset repo_of (filter_mset (\<lambda>c. cell_of c = k) B))"
      using cnt_map2_inner [OF a, of k] dinner by (intro map_of_merge_counts)
    with Some m kb show ?thesis
      by (simp add: as_map2_def cnt_map2_def)
  qed
qed

text \<open>
  Claim C5 (merge). When a list of commit records is split into two sub-lists in any way,
  the aggregate of the whole list denotes the same three mappings as the field-wise sum of
  the aggregates of the two sub-lists.
\<close>

theorem generate_heatmap_merge:
  assumes part: "mset commits = mset xs + mset ys"
  shows "map_of (heatmap_of (generate_heatmap commits))
           = map_of (heatmap_of (merge_aggregates (generate_heatmap xs) (generate_heatmap ys)))
       \<and> as_map2 (repo_heatmap_of (generate_heatmap commits))
           = as_map2 (repo_heatmap_of
               (merge_aggregates (generate_heatmap xs) (generate_heatmap ys)))
       \<and> map_of (repo_stats_of (generate_heatmap commits))
           = map_of (repo_stats_of
               (merge_aggregates (generate_heatmap xs) (generate_heatmap ys)))"
proof -
  obtain h rh rs where whole: "generate_heatmap commits = (h, rh, rs)"
    by (cases "generate_heatmap commits")
  obtain h1 rh1 rs1 where x: "generate_heatmap xs = (h1, rh1, rs1)"
    by (cases "generate_heatmap xs")
  obtain h2 rh2 rs2 where y: "generate_heatmap ys = (h2, rh2, rs2)"
    by (cases "generate_heatmap ys")
  have "map_of (merge_counts h1 h2) =
      cnt_map (image_mset cell_of (mset xs) + image_mset cell_of (mset ys))"
    by (intro map_of_merge_counts generate_heatmap_maps [OF x] generate_heatmap_maps [OF y]
        generate_heatmap_distinct [OF y])
  moreover have "as_map2 (merge_nested rh1 rh2) = cnt_map2 (mset xs + mset ys)"
    by (intro as_map2_merge_nested generate_heatmap_maps [OF x] generate_heatmap_maps [OF y]
        generate_heatmap_distinct [OF y])
  moreover have "map_of (merge_counts rs1 rs2) =
      cnt_map (image_mset repo_of (mset xs) + image_mset repo_of (mset ys))"
    by (intro map_of_merge_counts generate_heatmap_maps [OF x] generate_heatmap_maps [OF y]
        generate_heatmap_distinct [OF y])
  ultimately show ?thesis
    using generate_heatmap_maps [OF whole] part
    by (simp add: whole x y heatmap_of_def repo_heatmap_of_def repo_stats_of_def)
qed

theorem generate_heatmap_merge_witness:
  "mset example_commits = mset (take 1 example_commits) + mset (drop 1 example_commits)
   \<and> map_of (heatmap_of (generate_heatmap example_commits))
       = map_of (heatmap_of (merge_aggregates (generate_heatmap (take 1 example_commits))
                                              (generate_heatmap (drop 1 example_commits))))
   \<and> as_map2 (repo_heatmap_of (generate_heatmap example_commits))
       = as_map2 (repo_heatmap_of (merge_aggregates (generate_heatmap (take 1 example_commits))
                                              (generate_heatmap (drop 1 example_commits))))
   \<and> map_of (repo_stats_of (generate_heatmap example_commits))
       = map_of (repo_stats_of (merge_aggregates (generate_heatmap (take 1 example_commits))
                                              (generate_heatmap (drop 1 example_commits))))"
proof -
  have "mset example_commits = mset (take 1 example_commits) + mset (drop 1 example_commits)"
    by (simp add: example_commits_def)
  with generate_heatmap_merge [of example_commits "take 1 example_commits" "drop 1 example_commits"]
  show ?thesis by blast
qed


section \<open>Properties of the float model\<close>

lemma bit_length_le: "n < 2 ^ k \<Longrightarrow> bit_length n \<le> k"
proof (induction k arbitrary: n)
  case 0
  then show ?case by (simp add: bit_length.simps)
next
  case (Suc k)
  show ?case
  proof (cases "n = 0")
    case True
    then show ?thesis by (simp add: bit_length.simps)
  next
    case False
    from Suc.prems have "n div 2 < 2 ^ k" by simp
    then have "bit_length (n div 2) \<le> k" by (rule Suc.IH)
    with False show ?thesis by (subst bit_length.simps) simp
  qed
qed

lemma bit_length_power2: "bit_length (2 ^ k) = Suc k"
  by (induction k) (simp_all add: bit_length.simps)

lemma round53_small: "\<bar>m\<bar> < 2 ^ 53 \<Longrightarrow> round53 (m, e) = (m, e)"
proof -
  assume "\<bar>m\<bar> < 2 ^ 53"
  then have "nat \<bar>m\<bar> < 2 ^ 53" by (simp add: nat_less_iff)
  then have "bit_length (nat \<bar>m\<bar>) \<le> 53" by (rule bit_length_le)
  then show ?thesis by (simp add: round53_def)
qed

lemma float_of_int_small: "\<bar>n\<bar> < 2 ^ 53 \<Longrightarrow> float_of_int n = Inr (n, 0)"
proof -
  assume a: "\<bar>n\<bar> < 2 ^ 53"
  have "(2::int) ^ 53 \<le> 2 ^ 1024" by (rule power_increasing) simp_all
  with a have "\<not> 2 ^ 1024 \<le> \<bar>n\<bar>" by linarith
  with a show ?thesis by (simp add: float_of_int_def round53_small)
qed

lemma times_0_25: "\<bar>n\<bar> < 2 ^ 53 \<Longrightarrow> int_times_float n float_0_25 = Inr (n, - 2)"
  by (simp add: int_times_float_def float_of_int_small float_mul_def float_0_25_def round53_small)

lemma times_0_5: "\<bar>n\<bar> < 2 ^ 53 \<Longrightarrow> int_times_float n float_0_5 = Inr (n, - 1)"
  by (simp add: int_times_float_def float_of_int_small float_mul_def float_0_5_def round53_small)

lemma times_0_75:
  "\<bar>n\<bar> < 2 ^ 53 \<Longrightarrow> \<bar>3 * n\<bar> < 2 ^ 53 \<Longrightarrow> int_times_float n float_0_75 = Inr (3 * n, - 2)"
  by (simp add: int_times_float_def float_of_int_small float_mul_def float_0_75_def round53_small
      mult.commute)

lemma le_quarter: "int_le_float c (m, - 2) \<longleftrightarrow> real_of_int c \<le> 0.25 * real_of_int m"
proof -
  have "real_of_int c \<le> 0.25 * real_of_int m \<longleftrightarrow> real_of_int (c * 4) \<le> real_of_int m"
    by simp
  then show ?thesis by (simp add: int_le_float_def del: of_int_mult)
qed

lemma le_half: "int_le_float c (m, - 1) \<longleftrightarrow> real_of_int c \<le> 0.5 * real_of_int m"
proof -
  have "real_of_int c \<le> 0.5 * real_of_int m \<longleftrightarrow> real_of_int (c * 2) \<le> real_of_int m"
    by simp
  then show ?thesis by (simp add: int_le_float_def del: of_int_mult)
qed

lemma le_three_quarters:
  "int_le_float c (3 * m, - 2) \<longleftrightarrow> real_of_int c \<le> 0.75 * real_of_int m"
proof -
  have "real_of_int c \<le> 0.75 * real_of_int m \<longleftrightarrow> real_of_int (c * 4) \<le> real_of_int (3 * m)"
    by simp
  then show ?thesis by (simp add: int_le_float_def del: of_int_mult)
qed

text \<open>While \<open>3 * max_count\<close> has at most 53 bits, no product is rounded.\<close>

lemma html_level_exact:
  assumes "1 \<le> max_count" and "3 * max_count < 2 ^ 53"
  shows "html_level max_count cnt = Inr (quartile_level max_count cnt)"
proof -
  from assms have a: "\<bar>max_count\<bar> < 2 ^ 53" and b: "\<bar>3 * max_count\<bar> < 2 ^ 53"
    by simp_all
  show ?thesis
    by (simp add: html_level_def quartile_level_def times_0_25 [OF a] times_0_5 [OF a]
        times_0_75 [OF a b] le_quarter le_half le_three_quarters)
qed

text \<open>The two chains take the same branch: the colour is the one at the level.\<close>

lemma get_color_html_level:
  "get_color max_count cnt =
     map_sum id (\<lambda>level. terminal_colors ! level) (html_level max_count cnt)"
  by (simp add: get_color_def html_level_def terminal_colors_def split: sum.split)



lemma html_level_ok:
  "\<bar>max_count\<bar> < 2 ^ 53 \<Longrightarrow> \<exists>level. html_level max_count cnt = Inr level"
  by (simp add: html_level_def int_times_float_def float_of_int_small)

text \<open>The conversion does fail on an integer beyond the doubles.\<close>

lemma html_level_overflow: "html_level (2 ^ 1024) 1 = Inl OverflowError"
proof -
  have "bit_length (2 ^ 1024) = 1025"
    using bit_length_power2 [of 1024] by simp
  then show ?thesis
    by (simp add: html_level_def int_times_float_def float_of_int_def round53_def
        shift_round_def Let_def)
qed

lemma bit_length_55: "bit_length 27021597764222967 = 55"
  by (simp add: bit_length.simps)

lemma bit_length_53: "bit_length 9007199254740989 = 53"
  by (simp add: bit_length.simps)

text \<open>
  Claim C2 (quartile thresholds). As stated, for every \<open>max_count \<ge> 1\<close>, the claim fails:
  for \<open>max_count = 2 ^ 53 - 3\<close> the product \<open>max_count * 0.75\<close> is rounded up to
  \<open>3 * 2 ^ 51 - 2\<close>, so a cell with that count, above three quarters of \<open>max_count\<close>,
  gets level 3, not 4.
\<close>

theorem html_level_rounding_counterexample:
  "(0::int) \<le> 6755399441055742 \<and> (1::int) \<le> 9007199254740989
   \<and> quartile_level 9007199254740989 6755399441055742 = 4
   \<and> html_level 9007199254740989 6755399441055742 = Inr 3"
proof -
  have "quartile_level 9007199254740989 6755399441055742 = 4"
    by (simp add: quartile_level_def)
  moreover have "html_level 9007199254740989 6755399441055742 = Inr 3"
    by (simp add: html_level_def int_times_float_def float_of_int_def round53_def float_mul_def
        int_le_float_def float_0_25_def float_0_5_def float_0_75_def shift_round_def Let_def
        bit_length_55 bit_length_53)
  ultimately show ?thesis by simp
qed

text \<open>
  Claim C2, amended. For a count \<open>cnt \<ge> 0\<close> and \<open>max_count \<ge> 1\<close> with
  \<open>3 * max_count < 2 ^ 53\<close>, the level is 0 when the count is 0, else 1 when
  \<open>cnt \<le> 0.25 * max_count\<close>, else 2 when \<open>cnt \<le> 0.5 * max_count\<close>, else 3 when
  \<open>cnt \<le> 0.75 * max_count\<close>, else 4, every bound inclusive; the terminal colour is the
  one at that position; and the level of \<open>max_count\<close> itself is 4.
\<close>

theorem html_level_quartiles:
  assumes "0 \<le> cnt" and "1 \<le> max_count" and "3 * max_count < 2 ^ 53"
  shows "html_level max_count cnt = Inr (quartile_level max_count cnt)
       \<and> get_color max_count cnt = Inr (terminal_colors ! quartile_level max_count cnt)
       \<and> html_level max_count max_count = Inr 4"
proof -
  have "quartile_level max_count max_count = 4"
    using assms(2) by (simp add: quartile_level_def)
  then show ?thesis
    using html_level_exact [OF assms(2,3)] by (simp add: get_color_html_level)
qed

theorem html_level_quartiles_witness:
  "(0::int) \<le> 3 \<and> (1::int) \<le> 10 \<and> (3::int) * 10 < 2 ^ 53
   \<and> html_level 10 3 = Inr 2 \<and> quartile_level 10 3 = 2
   \<and> get_color 10 3 = Inr (terminal_colors ! 2) \<and> html_level 10 10 = Inr 4"
proof -
  have q: "quartile_level 10 3 = 2" by (simp add: quartile_level_def)
  from html_level_quartiles [of 3 10] q show ?thesis by simp
qed

section \<open>Running steps that may raise\<close>

lemma run_map_Inr: "run (map Inr xs) = (xs, None)"
  by (induction xs) simp_all



lemma all_Inr_map: "\<forall>s \<in> set steps. \<exists>x. s = Inr x \<Longrightarrow> \<exists>xs. steps = map Inr xs"
proof (induction steps)
  case Nil
  then show ?case by simp
next
  case (Cons s steps)
  then obtain x xs where "s = Inr x" "steps = map Inr xs" by auto
  then have "s # steps = map Inr (x # xs)" by simp
  then show ?case by (rule exI)
qed

lemma collect_map_Inr: "collect (map Inr xs) = Inr xs"
  by (induction xs) simp_all

lemma collect_Inr: "collect steps = Inr xs \<Longrightarrow> steps = map Inr xs"
proof (induction steps arbitrary: xs)
  case Nil
  then show ?case by simp
next
  case (Cons s steps)
  then show ?case
    by (cases s) (auto split: sum.splits)
qed




section \<open>The cells in what the renderers emit\<close>

lemma dates_of_nonempty: "heatmap \<noteq> [] \<Longrightarrow> dates_of heatmap \<noteq> []"
proof -
  assume ne: "heatmap \<noteq> []"
  have "set (dates_of heatmap) = (\<lambda>((date, _), _). date) ` set heatmap"
    by (simp add: dates_of_def)
  with ne show ?thesis by (cases heatmap) auto
qed




text \<open>A document that is built holds, in row \<open>hour\<close> and column \<open>j\<close>, that cell.\<close>

lemma html_body_cell:
  assumes "html_body heatmap repo_heatmap = Inr rows"
    and "hour < 24" and "j < length (dates_of heatmap)"
  shows "length rows = 24"
    and "fst (rows ! hour) = hour"
    and "length (snd (rows ! hour)) = length (dates_of heatmap)"
    and "html_cell heatmap repo_heatmap (max_count_of heatmap) hour (dates_of heatmap ! j)
           = Inr (snd (rows ! hour) ! j)"
proof -
  let ?cells = "\<lambda>hour. collect (map (html_cell heatmap repo_heatmap (max_count_of heatmap) hour)
      (dates_of heatmap))"
  from assms(1) have m: "map (\<lambda>hour. map_sum id (Pair hour) (?cells hour)) [0..<24] = map Inr rows"
    by (intro collect_Inr) (simp add: html_body_def Let_def)
  then have "length (map (\<lambda>hour. map_sum id (Pair hour) (?cells hour)) [0..<24]) = length (map Inr rows :: (py_error + _) list)"
    by simp
  then show len: "length rows = 24" by simp
  from m have "map (\<lambda>hour. map_sum id (Pair hour) (?cells hour)) [0..<24] ! hour
      = (map Inr rows :: (py_error + _) list) ! hour"
    by simp
  with assms(2) len have row: "map_sum id (Pair hour) (?cells hour) = Inr (rows ! hour)"
    by simp
  then obtain cs where cs: "?cells hour = Inr cs" and r: "rows ! hour = (hour, cs)"
    by (cases "?cells hour") auto
  from r show "fst (rows ! hour) = hour" by simp
  from cs have c: "map (html_cell heatmap repo_heatmap (max_count_of heatmap) hour)
      (dates_of heatmap) = map Inr cs"
    by (rule collect_Inr)
  then have "length (map (html_cell heatmap repo_heatmap (max_count_of heatmap) hour)
      (dates_of heatmap)) = length (map Inr cs :: (py_error + _) list)"
    by simp
  then have lc: "length cs = length (dates_of heatmap)" by simp
  with r show "length (snd (rows ! hour)) = length (dates_of heatmap)" by simp
  from c have "map (html_cell heatmap repo_heatmap (max_count_of heatmap) hour)
      (dates_of heatmap) ! j = (map Inr cs :: (py_error + _) list) ! j"
    by simp
  with assms(3) lc r show "html_cell heatmap repo_heatmap (max_count_of heatmap) hour
      (dates_of heatmap ! j) = Inr (snd (rows ! hour) ! j)"
    by simp
qed

lemma html_document_fields:
  assumes "html_document heatmap repo_stats repo_heatmap = Inr doc"
  shows "html_body heatmap repo_heatmap = Inr (body doc)"
    and "year_row doc = year_colspans_of (dates_of heatmap)"
    and "date_row doc = date_header_loop (dates_of heatmap) None"
    and "stats doc = summary heatmap repo_stats (dates_of heatmap)"
  using assms by (auto simp: html_document_def Let_def split: sum.splits)

text \<open>No step raises while \<open>max_count\<close> converts exactly; that covers every count below \<open>2 ^ 53\<close>.\<close>

lemma html_document_ok:
  assumes "\<bar>max_count_of heatmap\<bar> < 2 ^ 53"
  shows "\<exists>doc. html_document heatmap repo_stats repo_heatmap = Inr doc"
proof -
  have cell: "\<exists>c. html_cell heatmap repo_heatmap (max_count_of heatmap) hour date = Inr c"
    for hour date
    using html_level_ok [OF assms, of "dict_get heatmap (date, hour) 0"]
    by (auto simp: html_cell_def Let_def)
  have cells: "\<exists>cs. map (html_cell heatmap repo_heatmap (max_count_of heatmap) hour)
      (dates_of heatmap) = map Inr cs" for hour
    using cell by (intro all_Inr_map) auto
  have "\<exists>r. map_sum id (Pair hour)
      (collect (map (html_cell heatmap repo_heatmap (max_count_of heatmap) hour)
        (dates_of heatmap))) = Inr r" for hour
  proof -
    obtain cs where "map (html_cell heatmap repo_heatmap (max_count_of heatmap) hour)
        (dates_of heatmap) = map Inr cs"
      using cells [of hour] by blast
    then show ?thesis by (simp add: collect_map_Inr)
  qed
  then have "\<exists>rows. map (\<lambda>hour. map_sum id (Pair hour)
      (collect (map (html_cell heatmap repo_heatmap (max_count_of heatmap) hour)
        (dates_of heatmap)))) [0..<24] = map Inr rows"
    by (intro all_Inr_map) auto
  then obtain rows where "html_body heatmap repo_heatmap = Inr rows"
    by (auto simp: html_body_def Let_def collect_map_Inr)
  then show ?thesis
    by (simp add: html_document_def Let_def)
qed

text \<open>Where the document is built, the table is printed to its end.\<close>

lemma table_complete:
  assumes "html_document heatmap repo_stats' repo_heatmap = Inr doc"
  shows "snd (print_heatmap_table heatmap repo_stats) = None"
proof (cases "heatmap = []")
  case True
  then show ?thesis by (simp add: print_heatmap_table_def)
next
  case False
  note b = html_document_fields(1) [OF assms]
  have cell: "\<exists>c. terminal_cell heatmap (max_count_of heatmap) hour date = Inr c"
    if "hour < 24" and "date \<in> set (dates_of heatmap)" for hour date
  proof -
    from that(2) obtain j where j: "j < length (dates_of heatmap)" "dates_of heatmap ! j = date"
      by (auto simp: in_set_conv_nth)
    from html_body_cell(4) [OF b that(1) j(1)] j(2)
    obtain level where "html_level (max_count_of heatmap) (dict_get heatmap (date, hour) 0)
        = Inr level"
      by (auto simp: html_cell_def Let_def split: sum.splits)
    then show ?thesis
      by (simp add: terminal_cell_def Let_def get_color_html_level)
  qed
  have "\<forall>s \<in> set (table_steps heatmap repo_stats). \<exists>x. s = Inr x"
    using cell by (fastforce simp: table_steps_def Let_def)
  then obtain out where "table_steps heatmap repo_stats = map Inr out"
    using all_Inr_map by blast
  with False show ?thesis
    by (simp add: print_heatmap_table_def run_map_Inr)
qed

lemma table_ok:
  "\<bar>max_count_of heatmap\<bar> < 2 ^ 53 \<Longrightarrow> snd (print_heatmap_table heatmap repo_stats) = None"
  using html_document_ok [of heatmap None None] table_complete by blast

text \<open>
  The counts of an aggregate are between 1 and the number of commits, so the renderers
  raise no error on the aggregate of fewer than \<open>2 ^ 53\<close> commits.
\<close>

lemma fold_max_bounds:
  "lo \<le> v \<Longrightarrow> v \<le> hi \<Longrightarrow> \<forall>x \<in> set vs. lo \<le> x \<and> x \<le> hi \<Longrightarrow>
   lo \<le> fold max vs v \<and> fold max vs (v :: int) \<le> hi"
  by (induction vs arbitrary: v) simp_all

lemma aggregate_values:
  assumes "generate_heatmap commits = (h, rh, rs)" and "(k, v) \<in> set h"
  shows "1 \<le> v \<and> v \<le> int (length commits)"
proof -
  from generate_heatmap_distinct(1) [OF assms(1)] assms(2) have "map_of h k = Some v"
    by simp
  then have "cnt_map (image_mset cell_of (mset commits)) k = Some v"
    by (simp add: generate_heatmap_maps(1) [OF assms(1)])
  then have v: "v = int (count (image_mset cell_of (mset commits)) k)"
    and "k \<in># image_mset cell_of (mset commits)"
    by (auto simp: cnt_map_def split: if_splits)
  then have "1 \<le> v"
    by (simp add: Suc_le_eq)
  moreover have "count (image_mset cell_of (mset commits)) k
      \<le> size (image_mset cell_of (mset commits))"
    by (rule count_le_size)
  ultimately show ?thesis using v by simp
qed

lemma aggregate_max_count:
  assumes "generate_heatmap commits = (h, rh, rs)"
  shows "1 \<le> max_count_of h \<and> max_count_of h \<le> max 1 (int (length commits))"
proof (cases h)
  case Nil
  then show ?thesis by (simp add: max_count_of_def)
next
  case (Cons p ps)
  obtain k v where p: "p = (k, v)" by (cases p)
  have b: "1 \<le> x \<and> x \<le> int (length commits)" if "x \<in> snd ` set h" for x
    using that aggregate_values [OF assms] by auto
  have "1 \<le> fold max (map snd ps) v \<and> fold max (map snd ps) v \<le> int (length commits)"
    using b Cons p by (intro fold_max_bounds) auto
  with Cons p show ?thesis by (simp add: max_count_of_def)
qed

lemma aggregate_renders:
  assumes "generate_heatmap commits = (h, rh, rs)" and "length commits < 2 ^ 53"
  shows "snd (print_heatmap_table h repo_stats) = None"
    and "\<exists>doc. html_document h repo_stats repo_heatmap = Inr doc"
proof -
  from assms(2) have "int (length commits) < 2 ^ 53"
    by simp
  with aggregate_max_count [OF assms(1)] have "\<bar>max_count_of h\<bar> < 2 ^ 53"
    by (auto simp: max_def split: if_splits)
  then show "snd (print_heatmap_table h repo_stats) = None"
    and "\<exists>doc. html_document h repo_stats repo_heatmap = Inr doc"
    by (rule table_ok, rule html_document_ok)
qed

section \<open>The renderers agree on the level of a cell\<close>







section \<open>Properties of the terminal renderers\<close>




section \<open>The no-data path\<close>

text \<open>
  Claim C7 (no data). On an empty \<open>heatmap\<close> each of the three renderers prints the
  no-data notice and nothing else, draws no grid or table, and returns normally.
\<close>

theorem renderers_no_data:
  "print_heatmap_table [] repo_stats = ([No_data], None)
   \<and> print_heatmap_table_plain [] repo_stats = [No_data]
   \<and> generate_html_heatmap [] output_path repo_stats repo_heatmap w = Inr ([No_data], w)"
  by (simp add: print_heatmap_table_def print_heatmap_table_plain_def generate_html_heatmap_def)

text \<open>
  With data, the renderer stores the document it has built when the path is writable, and
  fails with the error of the build or of the write otherwise.
\<close>

lemma html_data_writes:
  "heatmap \<noteq> [] \<Longrightarrow> html_document heatmap repo_stats repo_heatmap = Inr doc \<Longrightarrow>
   output_path \<notin> unwritable w \<Longrightarrow>
   generate_html_heatmap heatmap output_path repo_stats repo_heatmap w
     = Inr ([Html_generated output_path], w\<lparr>files := (files w)(output_path \<mapsto> doc)\<rparr>)"
  by (simp add: generate_html_heatmap_def)

lemma html_data_write_fails:
  "heatmap \<noteq> [] \<Longrightarrow> html_document heatmap repo_stats repo_heatmap = Inr doc \<Longrightarrow>
   output_path \<in> unwritable w \<Longrightarrow>
   generate_html_heatmap heatmap output_path repo_stats repo_heatmap w = Inl OSError"
  by (simp add: generate_html_heatmap_def)

lemma html_build_fails:
  "heatmap \<noteq> [] \<Longrightarrow> html_document heatmap repo_stats repo_heatmap = Inl err \<Longrightarrow>
   generate_html_heatmap heatmap output_path repo_stats repo_heatmap w = Inl err"
  by (simp add: generate_html_heatmap_def)

text \<open>
  Claim C10 (no write without data). When \<open>heatmap\<close> is empty, \<open>generate_html_heatmap\<close>
  returns before the write: it leaves every file as it was, the one at \<open>output_path\<close>
  included, and does not fail even where a write would.
\<close>

theorem html_no_data_no_write:
  assumes "heatmap = []"
  shows "\<exists>out w'. generate_html_heatmap heatmap output_path repo_stats repo_heatmap w
             = Inr (out, w')
           \<and> files w' = files w \<and> files w' output_path = files w output_path \<and> w' = w"
  using assms by (simp add: generate_html_heatmap_def)

theorem html_no_data_no_write_witness:
  "([] :: (cell, int) dict) = []
   \<and> (\<exists>out w'. generate_html_heatmap [] ''out.html'' None None old_world = Inr (out, w')
        \<and> files w' = files old_world
        \<and> files w' ''out.html'' = files old_world ''out.html'' \<and> w' = old_world)
   \<and> files old_world ''out.html'' = Some old_doc
   \<and> ''out.html'' \<in> unwritable old_world"
  using html_no_data_no_write [of "[]" "''out.html''" None None old_world]
  by (simp add: old_world_def)

section \<open>Properties of the HTML header rows\<close>

subsection \<open>The year loop computes the runs of equal years\<close>

lemma year_loop_runs:
  "start \<le> i \<Longrightarrow>
   finish (year_loop (enumerate i rest) (Some cy, start, acc)) (i + length rest)
     = acc @ runs_from cy (i - start) (map year rest)"
proof (induction rest arbitrary: i cy start acc)
  case Nil
  then show ?case by (simp add: finish_def)
next
  case (Cons d rest)
  show ?case
  proof (cases "year d = cy")
    case True
    from Cons.prems have "start \<le> Suc i" by simp
    from Cons.IH [OF this, of cy acc] True Cons.prems show ?thesis
      by (simp add: Suc_diff_le)
  next
    case False
    have "i \<le> Suc i" by simp
    from Cons.IH [OF this, of "year d" "acc @ [(cy, int i - int start)]"] False Cons.prems
    show ?thesis by simp
  qed
qed

lemma year_colspans_of_runs: "year_colspans_of dates = runs (map year dates)"
proof (cases dates)
  case Nil
  then show ?thesis by (simp add: year_colspans_of_def runs_def)
next
  case (Cons d ds)
  have "year_colspans_of (d # ds) =
      finish (year_loop (enumerate 1 ds) (Some (year d), 0, [])) (1 + length ds)"
    by (simp add: year_colspans_of_def finish_def split: prod.split option.split)
  also have "\<dots> = runs_from (year d) 1 (map year ds)"
    using year_loop_runs [of 0 1 ds "year d" "[]"] by simp
  finally show ?thesis using Cons by (simp add: runs_def)
qed

lemma runs_from_cover:
  "concat (map (\<lambda>(y, c). replicate (nat c) y) (runs_from y n ys)) = replicate n y @ ys"
  by (induction ys arbitrary: y n) (simp_all add: replicate_app_Cons_same)

lemma runs_from_pos: "(z, c) \<in> set (runs_from y n ys) \<Longrightarrow> 1 \<le> n \<Longrightarrow> 1 \<le> c"
  by (induction ys arbitrary: y n) (auto split: if_splits)

lemma runs_from_sum: "sum_list (map snd (runs_from y n ys)) = int n + int (length ys)"
  by (induction ys arbitrary: y n) simp_all

lemma runs_from_keys: "map fst (runs_from y n ys) = remdups_adj (y # ys)"
  by (induction ys arbitrary: y n) simp_all

lemma runs_cover: "concat (map (\<lambda>(y, c). replicate (nat c) y) (runs xs)) = xs"
  by (cases xs) (simp_all add: runs_def runs_from_cover)

lemma runs_pos: "\<forall>(y, c) \<in> set (runs xs). 1 \<le> c"
  by (cases xs) (auto simp: runs_def dest: runs_from_pos)

lemma runs_sum: "sum_list (map snd (runs xs)) = int (length xs)"
  by (cases xs) (simp_all add: runs_def runs_from_sum)

lemma sorted_distinct_adj:
  "sorted xs \<Longrightarrow> distinct_adj xs \<Longrightarrow> distinct (xs :: 'a::linorder list)"
proof (induction xs)
  case Nil
  then show ?case by simp
next
  case (Cons x xs)
  from Cons.prems have "sorted xs" "distinct_adj xs"
    by (auto simp: distinct_adj_Cons)
  then have d: "distinct xs" by (rule Cons.IH)
  have "x \<notin> set xs"
  proof
    assume x: "x \<in> set xs"
    then obtain z zs where xs: "xs = z # zs" by (cases xs) auto
    with Cons.prems have "x \<noteq> z" "x \<le> z" by simp_all
    moreover from xs x Cons.prems have "z \<le> x" by auto
    ultimately show False by simp
  qed
  with d show ?case by simp
qed

lemma runs_distinct: "sorted xs \<Longrightarrow> distinct (map fst (runs (xs :: 'a::linorder list)))"
proof (cases xs)
  case Nil
  then show ?thesis by (simp add: runs_def)
next
  case (Cons y ys)
  assume "sorted xs"
  then have "sorted (remdups_adj (y # ys))" using Cons by (simp del: remdups_adj.simps)
  then have "distinct (remdups_adj (y # ys))"
    by (rule sorted_distinct_adj) simp
  then show ?thesis using Cons by (simp add: runs_def runs_from_keys del: remdups_adj.simps)
qed

lemma year_mono: "d \<le> d' \<Longrightarrow> year d \<le> year d'"
  by (cases d; cases d') (auto simp: year_def less_eq_prod_def)

lemma sorted_years: "sorted (map year (dates_of heatmap))"
proof -
  have "sorted (dates_of heatmap)" by (simp add: dates_of_def)
  then show ?thesis
    unfolding sorted_map by (rule sorted_wrt_mono_rel [rotated]) (simp add: year_mono)
qed

lemma length_dates_of:
  "length (dates_of heatmap) = card ((\<lambda>((date, _), _). date) ` set heatmap)"
  by (simp add: dates_of_def length_remdups_card_conv)

lemma two_year_dates: "dates_of two_year_heatmap = [(2023, 12, 31), (2024, 1, 1), (2024, 1, 2)]"
  by (simp add: dates_of_def two_year_heatmap_def less_eq_prod_def)

lemma two_year_year_colspans: "year_colspans_of (dates_of two_year_heatmap) = [(2023, 1), (2024, 2)]"
  by (simp add: two_year_dates year_colspans_of_def year_def)

lemma two_year_document:
  "\<exists>doc. html_document two_year_heatmap None None = Inr doc"
  by (rule html_document_ok) (simp add: max_count_of_def two_year_heatmap_def)

text \<open>
  Claim C8 (year-span header row). For a non-empty aggregate, in the document that the
  HTML renderer builds, the cells of the year-span row, read in order as \<open>colspan\<close>
  copies of their year, give exactly the years of the sorted dates; every \<open>colspan\<close> is
  at least 1 and no year has two cells, so each cell is one whole run of dates of one
  year and its \<open>colspan\<close> is the length of that run; the colspans sum to the number of
  distinct dates.
\<close>

theorem year_row_runs:
  assumes "heatmap \<noteq> []"
    and "html_document heatmap repo_stats repo_heatmap = Inr doc"
    and "cells = year_row doc"
    and "dates = dates_of heatmap"
  shows "concat (map (\<lambda>(y, colspan). replicate (nat colspan) y) cells) = map year dates
       \<and> (\<forall>(y, colspan) \<in> set cells. 1 \<le> colspan)
       \<and> distinct (map fst cells)
       \<and> cells \<noteq> []
       \<and> cells = runs (map year dates)
       \<and> sum_list (map snd cells) = int (length dates)
       \<and> length dates = card ((\<lambda>((date, _), _). date) ` set heatmap)"
proof -
  have c: "cells = runs (map year dates)"
    using assms(3,4) html_document_fields(2) [OF assms(2)] by (simp add: year_colspans_of_runs)
  have "set dates = (\<lambda>((date, _), _). date) ` set heatmap"
    using assms(4) by (simp add: dates_of_def)
  with assms(1) have "dates \<noteq> []"
    by (cases heatmap) auto
  then have "cells \<noteq> []"
    using runs_sum [of "map year dates"] c by auto
  then show ?thesis
    using runs_cover [of "map year dates"] runs_pos [of "map year dates"]
      runs_sum [of "map year dates"] runs_distinct [OF sorted_years, of heatmap]
      length_dates_of [of heatmap] assms(4)
    unfolding c by simp
qed

theorem year_row_runs_witness:
  "two_year_heatmap \<noteq> []
   \<and> dates_of two_year_heatmap = [(2023, 12, 31), (2024, 1, 1), (2024, 1, 2)]
   \<and> (\<exists>doc. html_document two_year_heatmap None None = Inr doc
         \<and> year_row doc = [(2023, 1), (2024, 2)]
         \<and> concat (map (\<lambda>(y, colspan). replicate (nat colspan) y) (year_row doc))
             = map year [(2023, 12, 31), (2024, 1, 1), (2024, 1, 2)]
         \<and> distinct (map fst (year_row doc))
         \<and> sum_list (map snd (year_row doc)) = 3)"
proof -
  have ne: "two_year_heatmap \<noteq> []"
    by (simp add: two_year_heatmap_def)
  obtain doc where doc: "html_document two_year_heatmap None None = Inr doc"
    using two_year_document by blast
  have row: "year_row doc = [(2023, 1), (2024, 2)]"
    using html_document_fields(2) [OF doc] by (simp add: two_year_year_colspans)
  note t = year_row_runs [OF ne doc refl two_year_dates [symmetric]]
  from t have cover:
    "concat (map (\<lambda>(y, colspan). replicate (nat colspan) y) (year_row doc))
       = map year [(2023, 12, 31), (2024, 1, 1), (2024, 1, 2)]"
    by (rule conjunct1)
  from t have dist: "distinct (map fst (year_row doc))"
    by blast
  from t have "sum_list (map snd (year_row doc))
      = int (length [(2023 :: nat, 12 :: nat, 31 :: nat), (2024, 1, 1), (2024, 1, 2)])"
    by blast
  then have total: "sum_list (map snd (year_row doc)) = 3"
    by simp
  from ne two_year_dates doc row cover dist total show ?thesis
    by blast
qed

subsection \<open>The date header loop marks the changes of year\<close>

lemma date_header_loop_length: "length (date_header_loop ds prev) = length ds"
  by (induction ds arbitrary: prev) (simp_all add: Let_def)

lemma date_header_loop_nth:
  "i < length ds \<Longrightarrow>
   date_header_loop ds prev ! i =
     ((if (if i = 0 then prev \<noteq> None \<and> Some (year (ds ! 0)) \<noteq> prev
           else year (ds ! i) \<noteq> year (ds ! (i - 1)))
       then date_header_class else ''''),
      strftime_md (ds ! i))"
proof (induction ds arbitrary: prev i)
  case Nil
  then show ?case by simp
next
  case (Cons d ds)
  show ?case
  proof (cases i)
    case 0
    then show ?thesis by (simp add: Let_def)
  next
    case (Suc j)
    with Cons.prems have j: "j < length ds" by simp
    show ?thesis
    proof (cases j)
      case 0
      with Suc Cons.IH [OF j, of "Some (year d)"] show ?thesis
        by (auto simp: Let_def)
    next
      case (Suc k)
      with \<open>i = Suc j\<close> Cons.IH [OF j, of "Some (year d)"] show ?thesis
        by (simp add: Let_def)
    qed
  qed
qed

text \<open>
  Claim C9 (year separator in the date row). In the document that the HTML renderer
  builds, the date row has one cell per sorted date; the cell of column \<open>i\<close> carries
  \<open>class="date-header"\<close> exactly when \<open>i > 0\<close> and the year of date \<open>i\<close> differs from
  the year of date \<open>i - 1\<close>, and no class otherwise, the first column included.
\<close>

theorem date_row_year_boundaries:
  assumes "html_document heatmap repo_stats repo_heatmap = Inr doc"
    and "dates = dates_of heatmap"
    and "cells = date_row doc"
  shows "length cells = length dates
       \<and> (\<forall>i < length dates.
            fst (cells ! i) =
              (if 0 < i \<and> year (dates ! i) \<noteq> year (dates ! (i - 1))
               then date_header_class else '''')
            \<and> snd (cells ! i) = strftime_md (dates ! i))"
  using assms(2,3) html_document_fields(3) [OF assms(1)]
  by (auto simp: date_header_loop_length date_header_loop_nth)

theorem date_row_year_boundaries_witness:
  "dates_of two_year_heatmap = [(2023, 12, 31), (2024, 1, 1), (2024, 1, 2)]
   \<and> (\<exists>doc. html_document two_year_heatmap None None = Inr doc
         \<and> length (date_row doc) = 3
         \<and> date_row doc ! 0 = ('''', ''12-31'')
         \<and> date_row doc ! 1 = (date_header_class, ''01-01'')
         \<and> date_row doc ! 2 = ('''', ''01-02''))
   \<and> date_header_class \<noteq> ''''"
proof -
  obtain doc where doc: "html_document two_year_heatmap None None = Inr doc"
    using two_year_document by blast
  note t = date_row_year_boundaries [OF doc two_year_dates [symmetric] refl]
  from t have len: "length (date_row doc) = 3"
    by simp
  from t have "\<forall>i < 3. date_row doc ! i =
      ((if 0 < i \<and> year ([(2023, 12, 31), (2024, 1, 1), (2024, 1, 2)] ! i)
                   \<noteq> year ([(2023, 12, 31), (2024, 1, 1), (2024, 1, 2)] ! (i - 1))
        then date_header_class else ''''),
       strftime_md ([(2023, 12, 31), (2024, 1, 1), (2024, 1, 2)] ! i))"
    by (simp add: prod_eq_iff)
  then have "date_row doc ! 0 = ('''', ''12-31'')"
    "date_row doc ! 1 = (date_header_class, ''01-01'')"
    "date_row doc ! 2 = ('''', ''01-02'')"
    by (simp_all add: year_def strftime_md_def pad2_def month_def day_def str_nat.simps digit_def)
  with len doc have "\<exists>doc. html_document two_year_heatmap None None = Inr doc
      \<and> length (date_row doc) = 3
      \<and> date_row doc ! 0 = ('''', ''12-31'')
      \<and> date_row doc ! 1 = (date_header_class, ''01-01'')
      \<and> date_row doc ! 2 = ('''', ''01-02'')"
    by blast
  with two_year_dates show ?thesis
    by (simp add: date_header_class_def)
qed

end
